theory Spec2Isabelle
  imports Complex_Main "HOL-Library.Word"
begin

section \<open>JavaScript strings\<close>

text \<open>
  A JavaScript string is a finite sequence of 16-bit code units. The library
  routines the two components call on strings (\<^verbatim>\<open>trim\<close>, \<^verbatim>\<open>startsWith\<close>,
  \<^verbatim>\<open>includes\<close>, the two regular-expression replacements, \<^verbatim>\<open>encodeURIComponent\<close>)
  are written out over that representation, following ECMA-262.
\<close>

type_synonym code_unit = "16 word"
type_synonym jsstring = "code_unit list"

text \<open>An ASCII literal of the source, as a JavaScript string.\<close>

definition lit :: "string \<Rightarrow> jsstring" where
  "lit s = map of_char s"

text \<open>
  \<^verbatim>\<open>String.prototype.trim\<close> removes WhiteSpace and LineTerminator code units from both
  ends: TAB, VT, FF, SP, NBSP, ZWNBSP, the Unicode space separators, and LF, CR, LS, PS.
\<close>

definition isWhiteSpace :: "code_unit \<Rightarrow> bool" where
  "isWhiteSpace c =
     (c = 0x0009 \<or> c = 0x000A \<or> c = 0x000B \<or> c = 0x000C \<or> c = 0x000D \<or> c = 0x0020 \<or>
      c = 0x00A0 \<or> c = 0x1680 \<or> (0x2000 \<le> c \<and> c \<le> 0x200A) \<or> c = 0x2028 \<or>
      c = 0x2029 \<or> c = 0x202F \<or> c = 0x205F \<or> c = 0x3000 \<or> c = 0xFEFF)"

definition trim :: "jsstring \<Rightarrow> jsstring" where
  "trim s = rev (dropWhile isWhiteSpace (rev (dropWhile isWhiteSpace s)))"

fun startsWith :: "jsstring \<Rightarrow> jsstring \<Rightarrow> bool" where
  "startsWith s [] = True"
| "startsWith [] (k # ks) = False"
| "startsWith (c # cs) (k # ks) = (c = k \<and> startsWith cs ks)"

definition endsWith :: "jsstring \<Rightarrow> jsstring \<Rightarrow> bool" where
  "endsWith s k = startsWith (rev s) (rev k)"

fun includes_js :: "jsstring \<Rightarrow> jsstring \<Rightarrow> bool" where
  "includes_js [] k = (k = [])"
| "includes_js (c # cs) k = (startsWith (c # cs) k \<or> includes_js cs k)"

section \<open>The diagram sanitizer (MermaidDiagram.tsx, sanitizeChart)\<close>

text \<open>
  \<^verbatim>\<open>[a-z]\<close> under the \<^verbatim>\<open>i\<close> flag, without the \<^verbatim>\<open>u\<close> flag: exactly the ASCII letters
  (a code unit above 127 is never canonicalised to one below 128).
\<close>

definition isAsciiLetter :: "code_unit \<Rightarrow> bool" where
  "isAsciiLetter c = ((0x41 \<le> c \<and> c \<le> 0x5A) \<or> (0x61 \<le> c \<and> c \<le> 0x7A))"

definition fence :: jsstring where
  "fence = lit ''```''"

text \<open>
  \<^verbatim>\<open>s.replace(/^```[a-z]*\n?/i, '')\<close>: the pattern is anchored at the start, both
  quantifiers are greedy and nothing follows them, so the match (when the text begins with
  three backticks) is the fence, the longest run of letters after it, and one line feed
  when it comes next.
\<close>

definition replaceLeadingFence :: "jsstring \<Rightarrow> jsstring" where
  "replaceLeadingFence s =
     (if startsWith s fence
      then (case dropWhile isAsciiLetter (drop 3 s) of
              [] \<Rightarrow> []
            | c # cs \<Rightarrow> if c = 0x000A then cs else c # cs)
      else s)"

text \<open>
  \<^verbatim>\<open>s.replace(/```$/, '')\<close>: without the \<^verbatim>\<open>m\<close> flag \<^verbatim>\<open>$\<close> is the end of the input, so
  the only possible match is the last three code units.
\<close>

definition replaceTrailingFence :: "jsstring \<Rightarrow> jsstring" where
  "replaceTrailingFence s = (if endsWith s fence then take (length s - 3) s else s)"

definition valid :: "jsstring list" where
  "valid = [lit ''graph '', lit ''flowchart '', lit ''sequenceDiagram'', lit ''classDiagram'',
            lit ''erDiagram'', lit ''gantt'', lit ''pie'']"

definition sanitizeChart :: "jsstring \<Rightarrow> jsstring" where
  "sanitizeChart raw =
     (let cleaned = trim (replaceTrailingFence (replaceLeadingFence (trim raw)))
      in if \<not> list_ex (\<lambda>kw. startsWith cleaned kw) valid
         then lit ''graph TD\<newline>'' @ cleaned
         else cleaned)"





section \<open>The diagram component (MermaidDiagram.tsx, MermaidDiagram)\<close>

text \<open>
  The rendering engine is external. \<^verbatim>\<open>mermaid.render(id, text)\<close> returns a promise; the
  model takes the way that promise settles as a parameter: resolved with the markup, or
  rejected. The identifier \<^verbatim>\<open>'mermaid-diagram-' + n\<close> is represented by the number \<open>n\<close>.
  The promise is taken to settle before the component is given another chart.
\<close>

datatype engine_outcome = Resolved jsstring | Rejected

type_synonym engine = "nat \<Rightarrow> jsstring \<Rightarrow> engine_outcome"

text \<open>
  The state a mounted component carries: the two \<^verbatim>\<open>useState\<close> cells, whether
  \<^verbatim>\<open>ref.current\<close> is attached to the diagram container, the markup last written into the
  container, the module-level \<^verbatim>\<open>_idCounter\<close>, and the arguments of every call of the
  engine so far.
\<close>

record diagram_state =
  error :: "jsstring option"
  rendered :: bool
  refAttached :: bool
  innerHTML :: jsstring
  idCounter :: nat
  engineCalls :: "(nat \<times> jsstring) list"

text \<open>\<^verbatim>\<open>!chart || !chart.trim()\<close>, for a chart that is \<^verbatim>\<open>undefined\<close> or a string.\<close>

definition blank :: "jsstring option \<Rightarrow> bool" where
  "blank chart = (case chart of None \<Rightarrow> True | Some c \<Rightarrow> c = [] \<or> trim c = [])"

text \<open>
  The element the component returns: the placeholder, the raw source of a failed render,
  or the diagram container (with the \<^verbatim>\<open>rendered\<close> flag and the markup inside it).
  \<^verbatim>\<open>if (error)\<close> holds for a string that is neither \<^verbatim>\<open>null\<close> nor empty.
\<close>

datatype view = Placeholder | Fallback jsstring | Diagram bool jsstring

definition jsx :: "jsstring option \<Rightarrow> diagram_state \<Rightarrow> view" where
  "jsx chart s =
     (if blank chart then Placeholder
      else (case error s of
              Some e \<Rightarrow> if e \<noteq> [] then Fallback e else Diagram (rendered s) (innerHTML s)
            | None \<Rightarrow> Diagram (rendered s) (innerHTML s)))"

text \<open>
  The body of the effect, run after the element is committed. The first handler of the
  promise writes the markup unless the container is gone; the second records the sanitized
  source as the error.
\<close>

definition effect :: "engine \<Rightarrow> jsstring option \<Rightarrow> diagram_state \<Rightarrow> diagram_state" where
  "effect mermaid_render chart s =
     (case chart of
        None \<Rightarrow> s
      | Some c \<Rightarrow>
          if \<not> refAttached s \<or> c = [] \<or> trim c = [] then s
          else
            (let s1 = s\<lparr>error := None, rendered := False\<rparr>;
                 n = idCounter s1 + 1;
                 safeChart = sanitizeChart c;
                 s2 = s1\<lparr>idCounter := n, engineCalls := engineCalls s1 @ [(n, safeChart)]\<rparr>
             in (case mermaid_render n safeChart of
                   Resolved svg \<Rightarrow>
                     if \<not> refAttached s2 then s2
                     else s2\<lparr>innerHTML := svg, rendered := True\<rparr>
                 | Rejected \<Rightarrow> s2\<lparr>error := Some safeChart\<rparr>)))"

text \<open>
  Committing the returned element attaches \<^verbatim>\<open>ref.current\<close> exactly when that element is
  the diagram container, the only one carrying the ref.
\<close>

definition commit :: "jsstring option \<Rightarrow> diagram_state \<Rightarrow> diagram_state" where
  "commit chart s =
     s\<lparr>refAttached := (case jsx chart s of Diagram r h \<Rightarrow> True | _ \<Rightarrow> False)\<rparr>"

text \<open>
  One pass for a value of the \<^verbatim>\<open>chart\<close> prop: the element is rendered and committed, the
  effect runs, and the element is rendered and committed again with the state it left.
\<close>

definition renderPass :: "engine \<Rightarrow> jsstring option \<Rightarrow> diagram_state \<Rightarrow> diagram_state" where
  "renderPass mermaid_render chart s = commit chart (effect mermaid_render chart (commit chart s))"

text \<open>A component just mounted, the module counter standing at \<open>n\<close>.\<close>

definition mounted :: "nat \<Rightarrow> diagram_state" where
  "mounted n =
     \<lparr>error = None, rendered = False, refAttached = False, innerHTML = [],
      idCounter = n, engineCalls = []\<rparr>"

text \<open>Mounting the component with a chart: what is displayed, and the state reached.\<close>

definition MermaidDiagram :: "engine \<Rightarrow> nat \<Rightarrow> jsstring option \<Rightarrow> view \<times> diagram_state" where
  "MermaidDiagram mermaid_render n chart =
     (let s = renderPass mermaid_render chart (mounted n) in (jsx chart s, s))"

text \<open>An engine that rejects every description, and one that accepts every one.\<close>

definition rejectAll :: engine where
  "rejectAll n text = Rejected"

definition acceptAll :: engine where
  "acceptAll n text = Resolved (lit ''<svg>'' @ text @ lit ''</svg>'')"

section \<open>URL encoding\<close>

text \<open>
  \<^verbatim>\<open>encodeURIComponent\<close> (ECMA-262, Encode with the unreserved set: letters, digits and
  \<^verbatim>\<open>- _ . ! ~ * ' ( )\<close>). Every other code point is written as the percent-escaped octets
  of its UTF-8 form; a surrogate code unit that is not part of a pair raises
  \<^verbatim>\<open>URIError\<close>, here the result \<open>None\<close>.
\<close>

definition isUnreserved :: "code_unit \<Rightarrow> bool" where
  "isUnreserved c =
     ((0x41 \<le> c \<and> c \<le> 0x5A) \<or> (0x61 \<le> c \<and> c \<le> 0x7A) \<or> (0x30 \<le> c \<and> c \<le> 0x39) \<or>
      c = 0x2D \<or> c = 0x5F \<or> c = 0x2E \<or> c = 0x21 \<or> c = 0x7E \<or> c = 0x2A \<or> c = 0x27 \<or>
      c = 0x28 \<or> c = 0x29)"

definition isHighSurrogate :: "code_unit \<Rightarrow> bool" where
  "isHighSurrogate c = (0xD800 \<le> c \<and> c \<le> 0xDBFF)"

definition isLowSurrogate :: "code_unit \<Rightarrow> bool" where
  "isLowSurrogate c = (0xDC00 \<le> c \<and> c \<le> 0xDFFF)"

definition utf8 :: "nat \<Rightarrow> nat list" where
  "utf8 cp =
     (if cp < 0x80 then [cp]
      else if cp < 0x800 then [0xC0 + cp div 0x40, 0x80 + cp mod 0x40]
      else if cp < 0x10000 then
        [0xE0 + cp div 0x1000, 0x80 + (cp div 0x40) mod 0x40, 0x80 + cp mod 0x40]
      else
        [0xF0 + cp div 0x40000, 0x80 + (cp div 0x1000) mod 0x40,
         0x80 + (cp div 0x40) mod 0x40, 0x80 + cp mod 0x40])"

definition hexDigit :: "nat \<Rightarrow> code_unit" where
  "hexDigit d = (if d < 10 then of_nat (0x30 + d) else of_nat (0x41 + (d - 10)))"

definition percentEscape :: "nat \<Rightarrow> jsstring" where
  "percentEscape octet = [0x25, hexDigit (octet div 16), hexDigit (octet mod 16)]"

fun encodeURIComponent :: "jsstring \<Rightarrow> jsstring option" where
  "encodeURIComponent [] = Some []"
| "encodeURIComponent (c # cs) =
     (if isUnreserved c then map_option (\<lambda>r. c # r) (encodeURIComponent cs)
      else if isLowSurrogate c then None
      else if \<not> isHighSurrogate c then
        map_option (\<lambda>r. concat (map percentEscape (utf8 (unat c))) @ r) (encodeURIComponent cs)
      else
        (case cs of
           [] \<Rightarrow> None
         | d # ds \<Rightarrow>
             if \<not> isLowSurrogate d then None
             else
               map_option
                 (\<lambda>r. concat (map percentEscape
                         (utf8 ((unat c - 0xD800) * 0x400 + (unat d - 0xDC00) + 0x10000))) @ r)
                 (encodeURIComponent ds)))"

section \<open>The analysis session (Analysis.tsx)\<close>

text \<open>
  Numbers of the event stream are only stored and compared, never computed with; they are
  modelled as reals. The results of the agents are parsed JSON values that the handler
  only stores.
\<close>

datatype json =
    JNull
  | JBool bool
  | JNumber real
  | JString jsstring
  | JArray "json list"
  | JObject "(jsstring \<times> json) list"

datatype phase = Idle | Fetching | Analyzing | Complete

datatype status = S_pending | S_working | S_complete | S_error

record AgentStatus =
  name :: jsstring
  key :: jsstring
  status :: status
  payment :: real
  txId :: jsstring
  allocation :: real

record RepoMeta =
  repoName :: jsstring
  fileCount :: real
  languages :: "jsstring list"

text \<open>The names of \<^verbatim>\<open>AGENT_DEFS\<close>, the roster the page always draws (colour, role and icon left out).\<close>

definition AGENT_DEFS :: "jsstring list" where
  "AGENT_DEFS =
     [lit ''Code Reader Agent'', lit ''Simplifier Agent'', lit ''Analogy Agent'',
      lit ''Insight Agent'']"

text \<open>
  The subscription: \<^verbatim>\<open>new EventSource('http://localhost:3001/api/analyze?repo=' +
  encodeURIComponent(url) + '&budget=' + budget)\<close>, kept as the two parts of the address that
  vary.
\<close>

record api_request =
  repo :: jsstring
  budgetParam :: real

text \<open>
  The state of the page that \<^verbatim>\<open>startAnalysis\<close> and the stream handler read and write, and
  the event source: \<open>es = Some r\<close> while the subscription opened with \<open>r\<close> is open,
  \<open>None\<close> when there is none or it has been closed.
\<close>

record session =
  repoUrl :: jsstring
  budget :: real
  phase :: phase
  repoMeta :: "RepoMeta option"
  agents :: "AgentStatus list"
  remainingBudget :: real
  refundAmount :: real
  refundTxId :: jsstring
  errorMsg :: jsstring
  data :: "jsstring \<rightharpoonup> json"
  shareId :: jsstring
  shareCopied :: bool
  es :: "api_request option"

text \<open>The state the page is created with, the input holding \<open>url\<close>.\<close>

definition initial :: "jsstring \<Rightarrow> session" where
  "initial url =
     \<lparr>repoUrl = url, budget = 1.5, phase = Idle, repoMeta = None, agents = [],
      remainingBudget = 0, refundAmount = 0, refundTxId = [], errorMsg = [],
      data = Map.empty, shareId = [], shareCopied = False, es = None\<rparr>"

datatype js_error = URIError

text \<open>
  \<^verbatim>\<open>startAnalysis\<close>: the new state, and the exception that escapes the handler, if any.
  The state setters called before \<^verbatim>\<open>encodeURIComponent\<close> have taken effect when it throws.
\<close>

definition startAnalysis :: "session \<Rightarrow> session \<times> js_error option" where
  "startAnalysis s =
     (let url = trim (repoUrl s) in
      if url = [] then (s\<lparr>errorMsg := lit ''Please enter a GitHub repo URL.''\<rparr>, None)
      else if \<not> includes_js url (lit ''github.com'')
      then (s\<lparr>errorMsg := lit ''Only GitHub repos are supported right now.''\<rparr>, None)
      else
        (let s' = s\<lparr>errorMsg := [], data := Map.empty, agents := [], repoMeta := None,
                     refundAmount := 0, refundTxId := [], shareId := [],
                     shareCopied := False, remainingBudget := budget s, phase := Fetching\<rparr>
         in (case encodeURIComponent url of
               None \<Rightarrow> (s', Some URIError)
             | Some enc \<Rightarrow> (s'\<lparr>es := Some \<lparr>repo = enc, budgetParam = budget s\<rparr>\<rparr>, None))))"

text \<open>
  The parsed event, by its \<^verbatim>\<open>type\<close>: \<^verbatim>\<open>fetching_repo\<close>, \<^verbatim>\<open>repo_fetched\<close> (meta),
  \<^verbatim>\<open>agent_start\<close> (agent, payment, allocation), \<^verbatim>\<open>agent_complete\<close> (agent, txId, payment,
  remainingBudget, key, result), \<^verbatim>\<open>agent_error\<close> (agent), \<^verbatim>\<open>analysis_complete\<close> (data),
  \<^verbatim>\<open>report_saved\<close> (shareId), \<^verbatim>\<open>refund\<close> (amount, txId), \<^verbatim>\<open>error\<close> (message), and any
  other type. The model starts from the value \<^verbatim>\<open>JSON.parse\<close> returns, with the fields the
  handler reads of the types the page declares.
\<close>

datatype event =
    E_fetching_repo
  | E_repo_fetched RepoMeta
  | E_agent_start jsstring real real
  | E_agent_complete jsstring jsstring real real jsstring json
  | E_agent_error jsstring
  | E_analysis_complete "jsstring \<rightharpoonup> json"
  | E_report_saved jsstring
  | E_refund real jsstring
  | E_error jsstring
  | E_other jsstring

text \<open>
  The handler \<^verbatim>\<open>es.onmessage\<close>, on the parsed event. The handler \<^verbatim>\<open>es.onerror\<close> of a
  failed connection does what this one does on an \<^verbatim>\<open>error\<close> event, with a message of its own.
\<close>

fun onmessage :: "session \<Rightarrow> event \<Rightarrow> session" where
  "onmessage s E_fetching_repo = s\<lparr>phase := Fetching\<rparr>"
| "onmessage s (E_repo_fetched meta) = s\<lparr>repoMeta := Some meta, phase := Analyzing\<rparr>"
| "onmessage s (E_agent_start agent pay alloc) =
     s\<lparr>agents := agents s @
        [\<lparr>name = agent, key = [], status = S_working, payment = pay, txId = [],
          allocation = alloc\<rparr>]\<rparr>"
| "onmessage s (E_agent_complete agent tx pay remaining k result) =
     s\<lparr>agents :=
          map (\<lambda>a. if name a = agent \<and> status a = S_working
                    then a\<lparr>status := S_complete, txId := tx, payment := pay\<rparr>
                    else a) (agents s),
        remainingBudget := remaining,
        data := (data s)(k \<mapsto> result)\<rparr>"
| "onmessage s (E_agent_error agent) =
     s\<lparr>agents := map (\<lambda>a. if name a = agent then a\<lparr>status := S_error\<rparr> else a) (agents s)\<rparr>"
| "onmessage s (E_analysis_complete d) = s\<lparr>data := d\<rparr>"
| "onmessage s (E_report_saved sid) = s\<lparr>shareId := sid\<rparr>"
| "onmessage s (E_refund amount tx) =
     s\<lparr>refundAmount := amount, refundTxId := tx, phase := Complete, es := None\<rparr>"
| "onmessage s (E_error message) = s\<lparr>errorMsg := message, phase := Idle, es := None\<rparr>"
| "onmessage s (E_other ty) = s"

text \<open>
  A frame of the stream reaches the handler only while the event source is open; after
  \<^verbatim>\<open>es.close()\<close> nothing is dispatched.
\<close>

definition deliver :: "session \<Rightarrow> event \<Rightarrow> session" where
  "deliver s e = (if es s = None then s else onmessage s e)"

definition run :: "session \<Rightarrow> event list \<Rightarrow> session" where
  "run s evs = foldl deliver s evs"

text \<open>The frames of a stream that reach the handler.\<close>

fun handled :: "session \<Rightarrow> event list \<Rightarrow> event list" where
  "handled s [] = []"
| "handled s (e # evs) = (if es s = None then [] else e # handled (onmessage s e) evs)"

text \<open>\<open>s0\<close> is the session a successful \<^verbatim>\<open>startAnalysis\<close> opens from the idle page \<open>s\<close>.\<close>

definition started :: "session \<Rightarrow> session \<Rightarrow> bool" where
  "started s s0 = (es s = None \<and> startAnalysis s = (s0, None) \<and> es s0 \<noteq> None)"

text \<open>The refund banner of the page: \<^verbatim>\<open>phase === 'complete' && refundAmount > 0\<close>.\<close>

definition refundShown :: "session \<Rightarrow> bool" where
  "refundShown s = (phase s = Complete \<and> refundAmount s > 0)"

text \<open>Quantities of a stream that the statements below speak of.\<close>

fun isRefund :: "event \<Rightarrow> bool" where
  "isRefund (E_refund amount tx) = True"
| "isRefund e = False"

fun startedNames :: "event list \<Rightarrow> jsstring list" where
  "startedNames [] = []"
| "startedNames (E_agent_start agent pay alloc # evs) = agent # startedNames evs"
| "startedNames (e # evs) = startedNames evs"

fun completionBudgets :: "event list \<Rightarrow> real list" where
  "completionBudgets [] = []"
| "completionBudgets (E_agent_complete agent tx pay remaining k result # evs) =
     remaining # completionBudgets evs"
| "completionBudgets (e # evs) = completionBudgets evs"

fun phaseRank :: "phase \<Rightarrow> nat" where
  "phaseRank Idle = 0"
| "phaseRank Fetching = 1"
| "phaseRank Analyzing = 2"
| "phaseRank Complete = 3"

definition terminal :: "AgentStatus \<Rightarrow> bool" where
  "terminal a = (status a = S_complete \<or> status a = S_error)"

section \<open>Example sessions\<close>

definition exampleUrl :: jsstring where
  "exampleUrl = lit ''https://github.com/owner/repo''"

definition exampleSession :: session where
  "exampleSession = fst (startAnalysis (initial exampleUrl))"

definition exampleMeta :: RepoMeta where
  "exampleMeta = \<lparr>repoName = lit ''owner/repo'', fileCount = 12, languages = [lit ''TypeScript'']\<rparr>"

text \<open>
  The stream of scenario A of the specification: the four agents of the roster start and
  complete, the budget going 1.05, 0.70, 0.32, 0, and a refund of 0.10 ends the session.
\<close>

definition scenarioA :: "event list" where
  "scenarioA =
     [E_fetching_repo, E_repo_fetched exampleMeta,
      E_agent_start (lit ''Code Reader Agent'') 0.45 30,
      E_agent_start (lit ''Simplifier Agent'') 0.35 23,
      E_agent_start (lit ''Analogy Agent'') 0.38 25,
      E_agent_start (lit ''Insight Agent'') 0.32 22,
      E_agent_complete (lit ''Code Reader Agent'') (lit ''tx1'') 0.45 1.05 (lit ''codeReader'') JNull,
      E_agent_complete (lit ''Simplifier Agent'') (lit ''tx2'') 0.35 0.70 (lit ''simplifier'') JNull,
      E_agent_complete (lit ''Analogy Agent'') (lit ''tx3'') 0.38 0.32 (lit ''analogy'') JNull,
      E_agent_complete (lit ''Insight Agent'') (lit ''tx4'') 0.32 0 (lit ''insight'') JNull,
      E_refund 0.10 (lit ''tx5'')]"

section \<open>Properties of the string routines\<close>

lemma dropWhile_hd_fix: "s \<noteq> [] \<Longrightarrow> \<not> P (hd s) \<Longrightarrow> dropWhile P s = s"
  by (cases s) auto

lemma last_dropWhile_keep: "dropWhile P xs \<noteq> [] \<Longrightarrow> last (dropWhile P xs) = last xs"
  by (induction xs) (auto split: if_splits)

lemma trim_fix:
  assumes "s \<noteq> []" and "\<not> isWhiteSpace (hd s)" and "\<not> isWhiteSpace (last s)"
  shows "trim s = s"
proof -
  have front: "dropWhile isWhiteSpace s = s"
    using assms by (simp add: dropWhile_hd_fix)
  have "hd (rev s) = last s"
    using assms by (simp add: hd_rev)
  then have rear: "dropWhile isWhiteSpace (rev s) = rev s"
    using assms by (simp add: dropWhile_hd_fix)
  show ?thesis
    by (simp add: trim_def front rear)
qed

lemma trim_Nil: "trim [] = []"
  by (simp add: trim_def)

lemma trim_ends:
  assumes "trim s \<noteq> []"
  shows "\<not> isWhiteSpace (hd (trim s)) \<and> \<not> isWhiteSpace (last (trim s))"
proof -
  define d where "d = dropWhile isWhiteSpace s"
  define e where "e = dropWhile isWhiteSpace (rev d)"
  have t: "trim s = rev e"
    by (simp add: trim_def d_def e_def)
  with assms have e: "e \<noteq> []" by simp
  then have d: "d \<noteq> []" by (auto simp: e_def)
  have "\<not> isWhiteSpace (hd e)"
    using e unfolding e_def by (rule hd_dropWhile)
  then have l: "\<not> isWhiteSpace (last (trim s))"
    using e by (simp add: t last_rev)
  have "last e = last (rev d)"
    using e unfolding e_def by (rule last_dropWhile_keep)
  also have "\<dots> = hd d"
    using d by (simp add: last_rev)
  finally have "hd (trim s) = hd d"
    using e by (simp add: t hd_rev)
  moreover have "\<not> isWhiteSpace (hd d)"
    using d unfolding d_def by (rule hd_dropWhile)
  ultimately show ?thesis using l by simp
qed

lemma trim_trim: "trim (trim s) = trim s"
proof (cases "trim s = []")
  case True
  then show ?thesis by (simp add: trim_Nil)
next
  case False
  then show ?thesis using trim_ends [OF False] by (simp add: trim_fix)
qed

lemma trim_empty_iff: "trim c = [] \<longleftrightarrow> list_all isWhiteSpace c"
proof -
  have "dropWhile isWhiteSpace (rev d) = [] \<longleftrightarrow> d = []"
    if "d = dropWhile isWhiteSpace c" for d
  proof
    assume a: "dropWhile isWhiteSpace (rev d) = []"
    show "d = []"
    proof (rule ccontr)
      assume n: "d \<noteq> []"
      then have "\<not> isWhiteSpace (hd d)"
        unfolding that by (rule hd_dropWhile)
      moreover have "hd d \<in> set (rev d)"
        using n by simp
      ultimately show False
        using a by (simp add: dropWhile_eq_Nil_conv)
    qed
  qed simp
  then have "trim c = [] \<longleftrightarrow> dropWhile isWhiteSpace c = []"
    by (simp add: trim_def)
  then show ?thesis
    by (simp add: dropWhile_eq_Nil_conv list_all_iff)
qed

lemma startsWith_append: "startsWith (k @ r) k"
  by (induction k) auto

lemma startsWith_hd: "startsWith s k \<Longrightarrow> k \<noteq> [] \<Longrightarrow> s \<noteq> [] \<and> hd s = hd k"
  by (cases s; cases k) auto

lemma startsWith_iff: "startsWith s k \<longleftrightarrow> (\<exists>r. s = k @ r)"
  by (induction s k rule: startsWith.induct) auto

section \<open>Properties of the sanitizer\<close>

lemma keyword_hd:
  assumes "list_ex (\<lambda>kw. startsWith s kw) valid"
  shows "s \<noteq> [] \<and> \<not> isWhiteSpace (hd s) \<and> hd s \<noteq> 0x60"
  using assms
  by (auto simp: valid_def lit_def isWhiteSpace_def dest!: startsWith_hd)

lemma no_fence_lead: "s \<noteq> [] \<Longrightarrow> hd s \<noteq> 0x60 \<Longrightarrow> replaceLeadingFence s = s"
  by (cases s) (auto simp: replaceLeadingFence_def fence_def lit_def)

lemma no_fence_trail: "\<not> endsWith s fence \<Longrightarrow> replaceTrailingFence s = s"
  by (simp add: replaceTrailingFence_def)

lemma sanitize_fix:
  assumes "s \<noteq> []" "\<not> isWhiteSpace (hd s)" "\<not> isWhiteSpace (last s)" "hd s \<noteq> 0x60"
    "\<not> endsWith s fence" "list_ex (\<lambda>kw. startsWith s kw) valid"
  shows "sanitizeChart s = s"
  using assms by (simp add: sanitizeChart_def trim_fix no_fence_lead no_fence_trail)

lemma sanitizeChart_nonempty: "sanitizeChart raw \<noteq> []"
  using keyword_hd [of "trim (replaceTrailingFence (replaceLeadingFence (trim raw)))"]
  by (auto simp: sanitizeChart_def Let_def lit_def)

lemma sanitizeChart_keyword: "list_ex (\<lambda>kw. startsWith (sanitizeChart raw) kw) valid"
  by (auto simp: sanitizeChart_def Let_def valid_def lit_def)

lemma sanitizeChart_idempotent_if:
  assumes "sanitizeChart x \<noteq> lit ''graph TD\<newline>''"
    and "\<not> endsWith (sanitizeChart x) fence"
  shows "sanitizeChart (sanitizeChart x) = sanitizeChart x"
proof -
  define c where "c = trim (replaceTrailingFence (replaceLeadingFence (trim x)))"
  have tr: "c = [] \<or> (\<not> isWhiteSpace (hd c) \<and> \<not> isWhiteSpace (last c))"
    unfolding c_def using trim_ends by blast
  show ?thesis
  proof (cases "list_ex (\<lambda>kw. startsWith c kw) valid")
    case True
    then have y: "sanitizeChart x = c"
      by (simp add: sanitizeChart_def c_def)
    from True have "c \<noteq> [] \<and> \<not> isWhiteSpace (hd c) \<and> hd c \<noteq> 0x60"
      by (rule keyword_hd)
    with tr True assms(2) show ?thesis
      unfolding y by (intro sanitize_fix) auto
  next
    case False
    then have y: "sanitizeChart x = lit ''graph TD\<newline>'' @ c"
      by (simp add: sanitizeChart_def c_def)
    with assms(1) have ne: "c \<noteq> []" by auto
    with tr have "\<not> isWhiteSpace (last c)" by simp
    with ne have l: "\<not> isWhiteSpace (last (lit ''graph TD\<newline>'' @ c))" by simp
    have h: "hd (lit ''graph TD\<newline>'' @ c) = 0x67"
      by (simp add: lit_def)
    have n: "lit ''graph TD\<newline>'' @ c \<noteq> []"
      using ne by simp
    have k: "list_ex (\<lambda>kw. startsWith (lit ''graph TD\<newline>'' @ c) kw) valid"
      by (simp add: valid_def lit_def)
    have w: "\<not> isWhiteSpace (hd (lit ''graph TD\<newline>'' @ c))"
      unfolding h by (simp add: isWhiteSpace_def)
    have b: "hd (lit ''graph TD\<newline>'' @ c) \<noteq> 0x60"
      unfolding h by simp
    show ?thesis
      unfolding y using n w l b assms(2) [unfolded y] k by (rule sanitize_fix)
  qed
qed

lemma trim_keeps_prefix:
  assumes "p \<noteq> []" and "\<not> isWhiteSpace (hd p)" and "\<not> isWhiteSpace (last p)"
  shows "\<exists>q. trim (p @ r) = p @ q"
proof -
  have f: "dropWhile isWhiteSpace (p @ r) = p @ r"
    using assms by (simp add: dropWhile_hd_fix)
  have "hd (rev p) = last p"
    using assms by (simp add: hd_rev)
  then have b: "dropWhile isWhiteSpace (rev p) = rev p"
    using assms by (simp add: dropWhile_hd_fix)
  have "\<exists>q. dropWhile isWhiteSpace (rev r @ rev p) = q @ rev p"
    by (simp add: dropWhile_append b)
  then obtain q where "dropWhile isWhiteSpace (rev r @ rev p) = q @ rev p" ..
  then have "trim (p @ r) = p @ rev q"
    by (simp add: trim_def f)
  then show ?thesis ..
qed

lemma length_trim: "length (trim s) \<le> length s"
proof -
  have "length (dropWhile P xs) \<le> length xs" for P and xs :: "code_unit list"
    by (induction xs) auto
  from this [of isWhiteSpace "rev (dropWhile isWhiteSpace s)"] this [of isWhiteSpace s]
  show ?thesis by (simp add: trim_def)
qed

lemma endsWith_iff: "endsWith s k \<longleftrightarrow> (\<exists>r. s = r @ k)"
proof -
  have "(\<exists>r. rev s = rev k @ r) \<longleftrightarrow> (\<exists>r. s = r @ k)"
  proof
    assume "\<exists>r. rev s = rev k @ r"
    then obtain r where "rev s = rev k @ r" ..
    then have "s = rev r @ k" by (simp add: rev_swap)
    then show "\<exists>r. s = r @ k" ..
  next
    assume "\<exists>r. s = r @ k"
    then obtain r where "s = r @ k" ..
    then have "rev s = rev k @ rev r" by simp
    then show "\<exists>r. rev s = rev k @ r" ..
  qed
  then show ?thesis
    by (simp add: endsWith_def startsWith_iff)
qed

lemma default_line_not_fixed:
  "sanitizeChart (lit ''graph TD\<newline>'') \<noteq> lit ''graph TD\<newline>''"
  by code_simp

lemma fence_not_fixed:
  assumes k: "list_ex (\<lambda>kw. startsWith y kw) valid" and e: "endsWith y fence"
  shows "sanitizeChart y \<noteq> y"
proof -
  from k have h: "y \<noteq> []" "\<not> isWhiteSpace (hd y)" "hd y \<noteq> 0x60"
    using keyword_hd by blast+
  from e obtain r where y: "y = r @ fence"
    by (auto simp: endsWith_iff)
  have "last y = 0x60"
    by (simp add: y fence_def lit_def)
  then have "\<not> isWhiteSpace (last y)"
    by (simp add: isWhiteSpace_def)
  with h have t: "trim y = y"
    by (simp add: trim_fix)
  have l: "replaceLeadingFence y = y"
    using h by (simp add: no_fence_lead)
  have "length fence = 3"
    by (simp add: fence_def lit_def)
  then have tr: "replaceTrailingFence y = r"
    using e by (simp add: replaceTrailingFence_def y)
  have s: "sanitizeChart y =
      (if list_ex (\<lambda>kw. startsWith (trim r) kw) valid then trim r
       else lit ''graph TD\<newline>'' @ trim r)"
    by (simp add: sanitizeChart_def t l tr)
  have len: "length (trim r) < length y"
    using length_trim [of r] \<open>length fence = 3\<close> by (simp add: y)
  show ?thesis
  proof (cases "list_ex (\<lambda>kw. startsWith (trim r) kw) valid")
    case True
    with s len show ?thesis by auto
  next
    case False
    show ?thesis
    proof
      assume "sanitizeChart y = y"
      with s False have eq: "r @ fence = lit ''graph TD\<newline>'' @ trim r"
        by (simp add: y)
      then have "length (r @ fence) = length (lit ''graph TD\<newline>'' @ trim r)"
        by simp
      then have lr: "length r = 6 + length (trim r)"
        using \<open>length fence = 3\<close> by (simp add: lit_def)
      have g9: "length (lit ''graph TD\<newline>'') = 9"
        by (simp add: lit_def)
      have pre: "take n r = take n (lit ''graph TD\<newline>'')" if "n \<le> length r" "n \<le> 9" for n
      proof -
        from eq have "take n (r @ fence) = take n (lit ''graph TD\<newline>'' @ trim r)"
          by simp
        with that g9 show ?thesis by simp
      qed
      have "take 5 r = lit ''graph''"
        using pre [of 5] lr by (simp add: lit_def)
      then have "r = lit ''graph'' @ drop 5 r"
        by (metis append_take_drop_id)
      moreover have "\<exists>q. trim (lit ''graph'' @ drop 5 r) = lit ''graph'' @ q"
        by (rule trim_keeps_prefix) (simp_all add: lit_def isWhiteSpace_def)
      ultimately obtain q where "trim r = lit ''graph'' @ q"
        by auto
      then have "5 \<le> length (trim r)"
        by (simp add: lit_def)
      with lr have "8 \<le> length r" by simp
      then have "take 8 r = lit ''graph TD''"
        using pre [of 8] by (simp add: lit_def)
      then have "r = lit ''graph TD'' @ drop 8 r"
        by (metis append_take_drop_id)
      moreover have "\<exists>q. trim (lit ''graph TD'' @ drop 8 r) = lit ''graph TD'' @ q"
        by (rule trim_keeps_prefix) (simp_all add: lit_def isWhiteSpace_def)
      ultimately obtain q' where "trim r = lit ''graph TD'' @ q'"
        by auto
      then have "startsWith (trim r) (lit ''graph '')"
        by (simp add: lit_def)
      then have "list_ex (\<lambda>kw. startsWith (trim r) kw) valid"
        by (simp add: valid_def)
      with False show False ..
    qed
  qed
qed

text \<open>
  C2, as amended. Sanitizing twice gives the same text as sanitizing once exactly for the
  inputs whose sanitized text is more than the bare default keyword line and does not end
  with a fence of three backticks.
\<close>

theorem sanitizeChart_idempotent_iff:
  "sanitizeChart (sanitizeChart x) = sanitizeChart x \<longleftrightarrow>
     sanitizeChart x \<noteq> lit ''graph TD\<newline>'' \<and> \<not> endsWith (sanitizeChart x) fence"
proof
  assume fixed: "sanitizeChart (sanitizeChart x) = sanitizeChart x"
  show "sanitizeChart x \<noteq> lit ''graph TD\<newline>'' \<and> \<not> endsWith (sanitizeChart x) fence"
  proof (intro conjI notI)
    assume "sanitizeChart x = lit ''graph TD\<newline>''"
    with fixed show False
      using default_line_not_fixed by simp
  next
    assume "endsWith (sanitizeChart x) fence"
    with fixed show False
      using fence_not_fixed [OF sanitizeChart_keyword] by blast
  qed
next
  assume "sanitizeChart x \<noteq> lit ''graph TD\<newline>'' \<and> \<not> endsWith (sanitizeChart x) fence"
  then show "sanitizeChart (sanitizeChart x) = sanitizeChart x"
    by (simp add: sanitizeChart_idempotent_if)
qed

theorem sanitizeChart_idempotent_iff_witness:
  "sanitizeChart (lit ''A-->B'') \<noteq> lit ''graph TD\<newline>'' \<and>
   \<not> endsWith (sanitizeChart (lit ''A-->B'')) fence \<and>
   sanitizeChart (sanitizeChart (lit ''A-->B'')) = sanitizeChart (lit ''A-->B'') \<and>
   sanitizeChart (lit ''A-->B'') = lit ''graph TD\<newline>A-->B''"
proof -
  have v: "sanitizeChart (lit ''A-->B'') = lit ''graph TD\<newline>A-->B''"
    by code_simp
  have a: "sanitizeChart (lit ''A-->B'') \<noteq> lit ''graph TD\<newline>''"
    unfolding v by (simp add: lit_def)
  have b: "\<not> endsWith (sanitizeChart (lit ''A-->B'')) fence"
    unfolding v by code_simp
  from a b have "sanitizeChart (sanitizeChart (lit ''A-->B'')) = sanitizeChart (lit ''A-->B'')"
    using sanitizeChart_idempotent_iff [of "lit ''A-->B''"] by blast
  with a b v show ?thesis by blast
qed

text \<open>
  Where idempotence fails: the empty text sanitizes to the default keyword line, whose
  final line feed the next pass trims; and a text that still ends with a fence after one
  pass loses that fence in the next.
\<close>

theorem sanitizeChart_not_idempotent:
  "sanitizeChart (sanitizeChart []) \<noteq> sanitizeChart [] \<and>
   sanitizeChart (sanitizeChart (lit ''pie``````'')) \<noteq> sanitizeChart (lit ''pie``````'')"
  by code_simp




section \<open>Properties of the diagram component\<close>

lemma blank_iff:
  "blank chart \<longleftrightarrow> chart = None \<or> (\<exists>c. chart = Some c \<and> list_all isWhiteSpace c)"
  by (cases chart) (auto simp: blank_def trim_empty_iff)

lemma effect_blank: "blank chart \<Longrightarrow> effect e chart s = s"
  by (auto simp: effect_def blank_def split: option.splits)

lemma jsx_blank: "blank chart \<Longrightarrow> jsx chart s = Placeholder"
  by (simp add: jsx_def)

lemma commit_fields:
  "error (commit chart s) = error s" "rendered (commit chart s) = rendered s"
  "innerHTML (commit chart s) = innerHTML s" "idCounter (commit chart s) = idCounter s"
  "engineCalls (commit chart s) = engineCalls s"
  by (simp_all add: commit_def)

lemma jsx_commit: "jsx chart (commit chart' s) = jsx chart s"
  by (cases "error s") (simp_all add: jsx_def commit_def)

text \<open>
  A pass over a chart with content, in a state that holds no error of an earlier chart:
  the engine is called once and decides what is displayed.
\<close>

lemma renderPass_fresh:
  assumes "\<not> blank (Some x)" and "error s = None"
  shows "jsx (Some x) (renderPass e (Some x) s) =
           (case e (Suc (idCounter s)) (sanitizeChart x) of
              Resolved svg \<Rightarrow> Diagram True svg
            | Rejected \<Rightarrow> Fallback (sanitizeChart x))"
  using assms sanitizeChart_nonempty [of x]
  by (auto simp: renderPass_def jsx_commit jsx_def effect_def commit_def blank_def Let_def
           split: engine_outcome.splits)

text \<open>
  A pass over a new chart in a state that still holds the error of an earlier chart: the
  fallback of the earlier chart is displayed, the container is not attached, and the
  effect returns at its guard without calling the engine.
\<close>

lemma renderPass_stale_error:
  assumes "\<not> blank (Some x)" and "error s = Some e" and "e \<noteq> []"
  shows "jsx (Some x) (renderPass mermaid_render (Some x) s) = Fallback e"
    and "engineCalls (renderPass mermaid_render (Some x) s) = engineCalls s"
  using assms
  by (simp_all add: renderPass_def jsx_commit commit_fields jsx_def effect_def commit_def
      blank_def)

text \<open>
  C1, as amended. Mounting the component with any string never raises and displays one of
  three things: the placeholder when the string is empty or all whitespace; otherwise the
  markup the engine resolved with, or, when the engine rejected, the fallback carrying the
  sanitized source verbatim.
\<close>

theorem MermaidDiagram_result:
  "fst (MermaidDiagram mermaid_render n (Some x)) =
     (if list_all isWhiteSpace x then Placeholder
      else (case mermaid_render (Suc n) (sanitizeChart x) of
              Resolved svg \<Rightarrow> Diagram True svg
            | Rejected \<Rightarrow> Fallback (sanitizeChart x)))"
proof (cases "blank (Some x)")
  case True
  then show ?thesis
    by (simp add: MermaidDiagram_def Let_def jsx_blank) (simp add: blank_iff)
next
  case False
  moreover have "error (mounted n) = None" "idCounter (mounted n) = n"
    by (simp_all add: mounted_def)
  ultimately show ?thesis
    using renderPass_fresh [of x "mounted n" mermaid_render]
    by (simp add: MermaidDiagram_def Let_def blank_iff)
qed

theorem MermaidDiagram_result_witness:
  "fst (MermaidDiagram rejectAll 0 (Some (lit ''A-->B''))) = Fallback (lit ''graph TD\<newline>A-->B'')
   \<and> fst (MermaidDiagram acceptAll 0 (Some (lit ''A-->B''))) =
       Diagram True (lit ''<svg>graph TD\<newline>A-->B</svg>'')"
proof -
  have v: "sanitizeChart (lit ''A-->B'') = lit ''graph TD\<newline>A-->B''"
    by code_simp
  have w: "\<not> list_all isWhiteSpace (lit ''A-->B'')"
    by code_simp
  have r: "fst (MermaidDiagram rejectAll 0 (Some (lit ''A-->B''))) =
           Fallback (sanitizeChart (lit ''A-->B''))"
    using MermaidDiagram_result [of rejectAll 0 "lit ''A-->B''"] w
    by (simp add: rejectAll_def)
  have a: "fst (MermaidDiagram acceptAll 0 (Some (lit ''A-->B''))) =
           Diagram True (lit ''<svg>'' @ sanitizeChart (lit ''A-->B'') @ lit ''</svg>'')"
    using MermaidDiagram_result [of acceptAll 0 "lit ''A-->B''"] w
    by (simp add: acceptAll_def)
  have c: "lit ''<svg>'' @ lit ''graph TD\<newline>A-->B'' @ lit ''</svg>'' =
           lit ''<svg>graph TD\<newline>A-->B</svg>''"
    by (simp add: lit_def)
  show ?thesis
    unfolding r a v c by simp
qed

text \<open>The empty string is displayed as the placeholder, neither as markup nor as fallback.\<close>

theorem MermaidDiagram_empty_placeholder:
  "fst (MermaidDiagram rejectAll 0 (Some [])) = Placeholder
   \<and> fst (MermaidDiagram acceptAll 0 (Some [])) = Placeholder
   \<and> fst (MermaidDiagram rejectAll 0 (Some [])) \<noteq> Fallback (sanitizeChart [])"
  by (simp add: MermaidDiagram_def renderPass_def commit_def effect_def jsx_def blank_def
      mounted_def)

text \<open>
  C10. When the chart is undefined, empty or consists of whitespace only, the effect does
  nothing: the engine is not called, the counter and the error cell are left as they were,
  and the component displays the placeholder, whatever its state.
\<close>

theorem blank_chart_placeholder:
  assumes "chart = None \<or> (\<exists>c. chart = Some c \<and> list_all isWhiteSpace c)"
  shows "effect mermaid_render chart s = s
       \<and> engineCalls (renderPass mermaid_render chart s) = engineCalls s
       \<and> idCounter (renderPass mermaid_render chart s) = idCounter s
       \<and> error (renderPass mermaid_render chart s) = error s
       \<and> jsx chart s = Placeholder
       \<and> jsx chart (renderPass mermaid_render chart s) = Placeholder"
proof -
  from assms have b: "blank chart" by (simp add: blank_iff)
  then show ?thesis
    by (simp add: renderPass_def effect_blank jsx_blank commit_fields)
qed

theorem blank_chart_placeholder_witness:
  "list_all isWhiteSpace (lit '' \<newline>  '')
   \<and> effect acceptAll (Some (lit '' \<newline>  '')) (mounted 0) = mounted 0
   \<and> engineCalls (snd (MermaidDiagram acceptAll 0 (Some (lit '' \<newline>  '')))) = []
   \<and> fst (MermaidDiagram acceptAll 0 (Some (lit '' \<newline>  ''))) = Placeholder
   \<and> fst (MermaidDiagram acceptAll 0 None) = Placeholder"
proof -
  have w: "list_all isWhiteSpace (lit '' \<newline>  '')"
    by code_simp
  show ?thesis
    using blank_chart_placeholder [of "Some (lit '' \<newline>  '')" acceptAll "mounted 0"]
      blank_chart_placeholder [of None acceptAll "mounted 0"] w
    by (simp add: MermaidDiagram_def Let_def mounted_def)
qed

section \<open>Properties of the session\<close>

lemma run_Nil [simp]: "run s [] = s"
  by (simp add: run_def)

lemma run_Cons [simp]: "run s (e # evs) = run (deliver s e) evs"
  by (simp add: run_def)

lemma run_append: "run s (xs @ ys) = run (run s xs) ys"
  by (simp add: run_def)

lemma run_snoc: "run s (xs @ [e]) = deliver (run s xs) e"
  by (simp add: run_def)

lemma deliver_closed: "es s = None \<Longrightarrow> deliver s e = s"
  by (simp add: deliver_def)

lemma run_closed: "es s = None \<Longrightarrow> run s evs = s"
  by (induction evs) (simp_all add: deliver_closed)

lemma deliver_open: "es s \<noteq> None \<Longrightarrow> deliver s e = onmessage s e"
  by (auto simp: deliver_def)

lemma run_handled: "run s evs = foldl onmessage s (handled s evs)"
proof (induction evs arbitrary: s)
  case Nil
  show ?case by simp
next
  case (Cons e evs)
  show ?case
  proof (cases "es s = None")
    case True
    then show ?thesis by (simp add: run_closed deliver_closed)
  next
    case False
    then show ?thesis by (auto simp: deliver_open Cons.IH)
  qed
qed

lemma started_fields:
  assumes "started s s0"
  shows "phase s0 = Fetching" "agents s0 = []" "refundAmount s0 = 0" "es s0 \<noteq> None"
    "remainingBudget s0 = budget s"
  using assms
  by (auto simp: started_def startAnalysis_def Let_def split: if_splits option.splits)

lemma exampleSession_started: "started (initial exampleUrl) exampleSession"
proof -
  have "snd (startAnalysis (initial exampleUrl)) = None"
    by code_simp
  moreover have "es (fst (startAnalysis (initial exampleUrl))) \<noteq> None"
    by code_simp
  moreover have "es (initial exampleUrl) = None"
    by (simp add: initial_def)
  ultimately show ?thesis
    by (simp add: started_def exampleSession_def prod_eq_iff)
qed

text \<open>
  Text without surrogate code units can always be encoded.
\<close>

lemma encodeURIComponent_no_surrogates:
  "\<forall>c\<in>set u. \<not> isHighSurrogate c \<and> \<not> isLowSurrogate c \<Longrightarrow> encodeURIComponent u \<noteq> None"
  by (induction u) auto

text \<open>
  What \<^verbatim>\<open>startAnalysis\<close> does on the references it handles. A reference that is empty once
  trimmed, or that does not contain \<^verbatim>\<open>github.com\<close>, is rejected: an error message is set,
  nothing else changes, and no subscription is opened. On a reference that passes both
  checks and that \<^verbatim>\<open>encodeURIComponent\<close> encodes, nothing is raised, the session is reset (no
  agents, no metadata, no results, no refund, no share link, the remaining budget set to
  the budget), the phase is set to fetching and the subscription is opened for the encoded
  reference and the budget.
\<close>

theorem startAnalysis_contract:
  "(trim (repoUrl s) = [] \<or> \<not> includes_js (trim (repoUrl s)) (lit ''github.com'')
      \<longrightarrow> (\<exists>msg. msg \<noteq> [] \<and> startAnalysis s = (s\<lparr>errorMsg := msg\<rparr>, None))
          \<and> es (fst (startAnalysis s)) = es s
          \<and> phase (fst (startAnalysis s)) = phase s)
   \<and> (trim (repoUrl s) \<noteq> [] \<and> includes_js (trim (repoUrl s)) (lit ''github.com'')
        \<and> encodeURIComponent (trim (repoUrl s)) = Some enc
      \<longrightarrow> snd (startAnalysis s) = None
          \<and> es (fst (startAnalysis s)) = Some \<lparr>repo = enc, budgetParam = budget s\<rparr>
          \<and> phase (fst (startAnalysis s)) = Fetching
          \<and> agents (fst (startAnalysis s)) = []
          \<and> repoMeta (fst (startAnalysis s)) = None
          \<and> data (fst (startAnalysis s)) = Map.empty
          \<and> remainingBudget (fst (startAnalysis s)) = budget s
          \<and> refundAmount (fst (startAnalysis s)) = 0
          \<and> refundTxId (fst (startAnalysis s)) = []
          \<and> shareId (fst (startAnalysis s)) = []
          \<and> errorMsg (fst (startAnalysis s)) = [])"
proof (intro conjI impI)
  assume bad: "trim (repoUrl s) = [] \<or> \<not> includes_js (trim (repoUrl s)) (lit ''github.com'')"
  have ne: "lit ''Please enter a GitHub repo URL.'' \<noteq> []"
    "lit ''Only GitHub repos are supported right now.'' \<noteq> []"
    by (simp_all add: lit_def)
  from bad ne show "\<exists>msg. msg \<noteq> [] \<and> startAnalysis s = (s\<lparr>errorMsg := msg\<rparr>, None)"
    by (auto simp: startAnalysis_def Let_def)
  from bad show "es (fst (startAnalysis s)) = es s"
    by (auto simp: startAnalysis_def Let_def)
  from bad show "phase (fst (startAnalysis s)) = phase s"
    by (auto simp: startAnalysis_def Let_def)
next
  assume ok: "trim (repoUrl s) \<noteq> [] \<and> includes_js (trim (repoUrl s)) (lit ''github.com'')
        \<and> encodeURIComponent (trim (repoUrl s)) = Some enc"
  then have eq: "startAnalysis s =
    (s\<lparr>errorMsg := [], data := Map.empty, agents := [], repoMeta := None,
       refundAmount := 0, refundTxId := [], shareId := [],
       shareCopied := False, remainingBudget := budget s, phase := Fetching,
       es := Some \<lparr>repo = enc, budgetParam = budget s\<rparr>\<rparr>, None)"
    by (simp add: startAnalysis_def Let_def)
  show "snd (startAnalysis s) = None"
    "es (fst (startAnalysis s)) = Some \<lparr>repo = enc, budgetParam = budget s\<rparr>"
    "phase (fst (startAnalysis s)) = Fetching"
    "agents (fst (startAnalysis s)) = []"
    "repoMeta (fst (startAnalysis s)) = None"
    "data (fst (startAnalysis s)) = Map.empty"
    "remainingBudget (fst (startAnalysis s)) = budget s"
    "refundAmount (fst (startAnalysis s)) = 0"
    "refundTxId (fst (startAnalysis s)) = []"
    "shareId (fst (startAnalysis s)) = []"
    "errorMsg (fst (startAnalysis s)) = []"
    by (simp_all add: eq)
qed

theorem startAnalysis_contract_witness:
  "trim (repoUrl (initial exampleUrl)) \<noteq> []
   \<and> includes_js (trim (repoUrl (initial exampleUrl))) (lit ''github.com'')
   \<and> encodeURIComponent (trim (repoUrl (initial exampleUrl))) =
       Some (lit ''https%3A%2F%2Fgithub.com%2Fowner%2Frepo'')
   \<and> es (fst (startAnalysis (initial exampleUrl))) =
       Some \<lparr>repo = lit ''https%3A%2F%2Fgithub.com%2Fowner%2Frepo'', budgetParam = 1.5\<rparr>
   \<and> phase (fst (startAnalysis (initial exampleUrl))) = Fetching
   \<and> \<not> includes_js (trim (repoUrl (initial (lit ''gitlab.com/owner/repo'')))) (lit ''github.com'')
   \<and> es (fst (startAnalysis (initial (lit ''gitlab.com/owner/repo'')))) = None
   \<and> phase (fst (startAnalysis (initial (lit ''gitlab.com/owner/repo'')))) = Idle
   \<and> trim (repoUrl (initial (lit ''  ''))) = []
   \<and> es (fst (startAnalysis (initial (lit ''  '')))) = None"
proof -
  have a: "trim (repoUrl (initial exampleUrl)) \<noteq> []"
    "includes_js (trim (repoUrl (initial exampleUrl))) (lit ''github.com'')"
    "encodeURIComponent (trim (repoUrl (initial exampleUrl))) =
       Some (lit ''https%3A%2F%2Fgithub.com%2Fowner%2Frepo'')"
    by code_simp+
  have b: "\<not> includes_js (trim (repoUrl (initial (lit ''gitlab.com/owner/repo'')))) (lit ''github.com'')"
    by code_simp
  have c: "trim (repoUrl (initial (lit ''  ''))) = []"
    by code_simp
  have i: "es (initial u) = None" "phase (initial u) = Idle" "budget (initial u) = 1.5" for u
    by (simp_all add: initial_def)
  show ?thesis
    using startAnalysis_contract [of "initial exampleUrl" "lit ''https%3A%2F%2Fgithub.com%2Fowner%2Frepo''"]
      startAnalysis_contract [of "initial (lit ''gitlab.com/owner/repo'')"]
      startAnalysis_contract [of "initial (lit ''  '')"]
      a b c
    by (simp add: i)
qed

text \<open>
  C8. On every reference that passes the two checks \<^verbatim>\<open>startAnalysis\<close> is to reset the
  session, set the phase to fetching and open the subscription. The code misses one case:
  the reference \<^verbatim>\<open>github.com/\<close> followed by a high surrogate with no low surrogate after it
  passes both checks, the session is reset and the phase set to fetching, and then
  \<^verbatim>\<open>encodeURIComponent\<close> throws \<^verbatim>\<open>URIError\<close> out of the handler: no error message is set and
  no subscription is opened, so the page stays in phase fetching with nothing to end it.
\<close>

theorem startAnalysis_unpaired_surrogate:
  "trim (repoUrl (initial (lit ''github.com/'' @ [0xD800]))) \<noteq> []
   \<and> includes_js (trim (repoUrl (initial (lit ''github.com/'' @ [0xD800])))) (lit ''github.com'')
   \<and> snd (startAnalysis (initial (lit ''github.com/'' @ [0xD800]))) = Some URIError
   \<and> es (fst (startAnalysis (initial (lit ''github.com/'' @ [0xD800])))) = None
   \<and> phase (fst (startAnalysis (initial (lit ''github.com/'' @ [0xD800])))) = Fetching
   \<and> errorMsg (fst (startAnalysis (initial (lit ''github.com/'' @ [0xD800])))) = []"
  by code_simp

lemma map_if_untouched: "\<forall>a\<in>set xs. \<not> P a \<Longrightarrow> map (\<lambda>a. if P a then f a else a) xs = xs"
  by (induction xs) auto

text \<open>
  C3, as amended. An \<^verbatim>\<open>agent_complete\<close> event upgrades every entry of \<open>agents\<close> that has
  the event's agent name and is working (status complete, \<^verbatim>\<open>txId\<close> and payment from the
  event) and leaves every other entry as it is; when no entry of that name is working,
  \<open>agents\<close> is unchanged. An \<^verbatim>\<open>agent_error\<close> event sets every working entry of that name to
  error and leaves the entries of other names as they are; when no entry has that name,
  \<open>agents\<close> is unchanged. Neither event changes the length of \<open>agents\<close>.
\<close>

theorem agent_complete_error_upgrade:
  "length (agents (onmessage s (E_agent_complete agent tx pay remaining k result))) =
     length (agents s)
   \<and> (\<forall>i<length (agents s).
        agents (onmessage s (E_agent_complete agent tx pay remaining k result)) ! i =
          (if name (agents s ! i) = agent \<and> status (agents s ! i) = S_working
           then (agents s ! i)\<lparr>status := S_complete, txId := tx, payment := pay\<rparr>
           else agents s ! i))
   \<and> ((\<forall>a\<in>set (agents s). \<not> (name a = agent \<and> status a = S_working))
        \<longrightarrow> agents (onmessage s (E_agent_complete agent tx pay remaining k result)) = agents s)
   \<and> length (agents (onmessage s (E_agent_error agent))) = length (agents s)
   \<and> (\<forall>i<length (agents s).
        (name (agents s ! i) = agent \<and> status (agents s ! i) = S_working
           \<longrightarrow> agents (onmessage s (E_agent_error agent)) ! i = (agents s ! i)\<lparr>status := S_error\<rparr>)
        \<and> (name (agents s ! i) \<noteq> agent
           \<longrightarrow> agents (onmessage s (E_agent_error agent)) ! i = agents s ! i))
   \<and> ((\<forall>a\<in>set (agents s). name a \<noteq> agent)
        \<longrightarrow> agents (onmessage s (E_agent_error agent)) = agents s)"
proof (intro conjI impI allI)
  show "length (agents (onmessage s (E_agent_complete agent tx pay remaining k result))) =
     length (agents s)"
    by simp
  show "length (agents (onmessage s (E_agent_error agent))) = length (agents s)"
    by simp
next
  fix i assume "i < length (agents s)"
  then show "agents (onmessage s (E_agent_complete agent tx pay remaining k result)) ! i =
          (if name (agents s ! i) = agent \<and> status (agents s ! i) = S_working
           then (agents s ! i)\<lparr>status := S_complete, txId := tx, payment := pay\<rparr>
           else agents s ! i)"
    by simp
next
  assume "\<forall>a\<in>set (agents s). \<not> (name a = agent \<and> status a = S_working)"
  then show "agents (onmessage s (E_agent_complete agent tx pay remaining k result)) = agents s"
    by (simp add: map_if_untouched)
next
  fix i assume "i < length (agents s)"
    and "name (agents s ! i) = agent \<and> status (agents s ! i) = S_working"
  then show "agents (onmessage s (E_agent_error agent)) ! i = (agents s ! i)\<lparr>status := S_error\<rparr>"
    by simp
next
  fix i assume "i < length (agents s)" and "name (agents s ! i) \<noteq> agent"
  then show "agents (onmessage s (E_agent_error agent)) ! i = agents s ! i"
    by simp
next
  assume "\<forall>a\<in>set (agents s). name a \<noteq> agent"
  then show "agents (onmessage s (E_agent_error agent)) = agents s"
    by (simp add: map_if_untouched)
qed

theorem agent_complete_error_upgrade_witness:
  "agents (run exampleSession [E_agent_error (lit ''Insight Agent'')]) = []
   \<and> agents (onmessage
        (run exampleSession
          [E_agent_start (lit ''Analogy Agent'') 0.38 25,
           E_agent_start (lit ''Insight Agent'') 0.32 22])
        (E_agent_complete (lit ''Insight Agent'') (lit ''tx'') 0.3 1.2 (lit ''insight'') JNull)) ! 1 =
       \<lparr>name = lit ''Insight Agent'', key = [], status = S_complete, payment = 0.3,
        txId = lit ''tx'', allocation = 22\<rparr>
   \<and> agents (onmessage
        (run exampleSession
          [E_agent_start (lit ''Analogy Agent'') 0.38 25,
           E_agent_start (lit ''Insight Agent'') 0.32 22])
        (E_agent_complete (lit ''Insight Agent'') (lit ''tx'') 0.3 1.2 (lit ''insight'') JNull)) ! 0 =
       \<lparr>name = lit ''Analogy Agent'', key = [], status = S_working, payment = 0.38,
        txId = [], allocation = 25\<rparr>"
  (is "?A \<and> ?B \<and> ?C")
proof -
  define s1 where "s1 = run exampleSession
          [E_agent_start (lit ''Analogy Agent'') 0.38 25,
           E_agent_start (lit ''Insight Agent'') 0.32 22]"
  have o: "es exampleSession \<noteq> None" and n: "agents exampleSession = []"
    using exampleSession_started by (rule started_fields)+
  have "\<forall>a\<in>set (agents exampleSession). name a \<noteq> lit ''Insight Agent''"
    by (simp add: n)
  with agent_complete_error_upgrade [of exampleSession]
  have "agents (onmessage exampleSession (E_agent_error (lit ''Insight Agent''))) =
        agents exampleSession"
    by blast
  with o n have a: ?A
    by (simp add: deliver_open)
  have s1: "agents s1 =
      [\<lparr>name = lit ''Analogy Agent'', key = [], status = S_working, payment = 0.38,
        txId = [], allocation = 25\<rparr>,
       \<lparr>name = lit ''Insight Agent'', key = [], status = S_working, payment = 0.32,
        txId = [], allocation = 22\<rparr>]"
    using o n by (simp add: s1_def deliver_open)
  have d: "lit ''Analogy Agent'' \<noteq> lit ''Insight Agent''"
    by (simp add: lit_def)
  from agent_complete_error_upgrade
    [of s1 "lit ''Insight Agent''" "lit ''tx''" "0.3" "1.2" "lit ''insight''" JNull]
  have "\<forall>i<length (agents s1).
        agents (onmessage s1 (E_agent_complete (lit ''Insight Agent'') (lit ''tx'') 0.3 1.2
                 (lit ''insight'') JNull)) ! i =
          (if name (agents s1 ! i) = lit ''Insight Agent'' \<and> status (agents s1 ! i) = S_working
           then (agents s1 ! i)\<lparr>status := S_complete, txId := lit ''tx'', payment := 0.3\<rparr>
           else agents s1 ! i)"
    by blast
  then have "?B \<and> ?C"
    unfolding s1_def [symmetric] using d by (simp add: s1)
  with a show ?thesis by blast
qed

text \<open>
  Two working entries of one name are both upgraded, not only the most recent; and a
  failure event for an entry that is already complete is not a no-op.
\<close>

theorem agent_complete_upgrades_all:
  "map status (agents (run exampleSession
      [E_agent_start (lit ''Analogy Agent'') 0.38 25,
       E_agent_start (lit ''Analogy Agent'') 0.38 25,
       E_agent_complete (lit ''Analogy Agent'') (lit ''tx'') 0.3 1.2 (lit ''analogy'') JNull])) =
     [S_complete, S_complete]
   \<and> map status (agents (run exampleSession
      [E_agent_start (lit ''Analogy Agent'') 0.38 25,
       E_agent_complete (lit ''Analogy Agent'') (lit ''tx'') 0.3 1.2 (lit ''analogy'') JNull])) =
     [S_complete]
   \<and> map status (agents (run exampleSession
      [E_agent_start (lit ''Analogy Agent'') 0.38 25,
       E_agent_complete (lit ''Analogy Agent'') (lit ''tx'') 0.3 1.2 (lit ''analogy'') JNull,
       E_agent_error (lit ''Analogy Agent'')])) =
     [S_error]"
  by code_simp

lemma onmessage_agents_length:
  "length (agents (onmessage s e)) = length (agents s) + length (startedNames [e])"
  by (cases e) simp_all

lemma startedNames_Cons: "startedNames (e # evs) = startedNames [e] @ startedNames evs"
  by (cases e) simp_all

lemma deliver_agents_length:
  "length (agents (deliver s e)) \<le> length (agents s) + length (startedNames [e])"
  by (simp add: deliver_def onmessage_agents_length)

lemma run_agents_length:
  "length (agents (run s evs)) \<le> length (agents s) + length (startedNames evs)"
proof (induction evs arbitrary: s)
  case Nil
  show ?case by simp
next
  case (Cons e evs)
  have "length (agents (run (deliver s e) evs)) \<le>
        length (agents (deliver s e)) + length (startedNames evs)"
    by (rule Cons.IH)
  also have "\<dots> \<le> length (agents s) + length (startedNames [e]) + length (startedNames evs)"
    using deliver_agents_length [of s e] by simp
  finally show ?case
    by (subst startedNames_Cons) simp
qed

lemma deliver_agents_grow: "length (agents s) \<le> length (agents (deliver s e))"
  by (simp add: deliver_def onmessage_agents_length)

text \<open>The entries of \<open>agents\<close> are counted by the start events that reach the handler.\<close>

lemma run_agents_length_eq:
  "length (agents (run s evs)) = length (agents s) + length (startedNames (handled s evs))"
proof (induction evs arbitrary: s)
  case Nil
  show ?case by simp
next
  case (Cons e evs)
  show ?case
  proof (cases "es s = None")
    case True
    then show ?thesis by (simp add: deliver_closed run_closed)
  next
    case False
    then have d: "deliver s e = onmessage s e"
      by (rule deliver_open)
    have h: "handled s (e # evs) = e # handled (onmessage s e) evs"
      using False by auto
    have "length (agents (run s (e # evs))) =
          length (agents (onmessage s e)) + length (startedNames (handled (onmessage s e) evs))"
      using Cons.IH [of "onmessage s e"] by (simp add: d)
    also have "\<dots> = length (agents s) + length (startedNames [e])
                 + length (startedNames (handled (onmessage s e) evs))"
      by (simp add: onmessage_agents_length)
    also have "\<dots> = length (agents s) + length (startedNames (handled s (e # evs)))"
      unfolding h by (subst (2) startedNames_Cons) simp
    finally show ?thesis .
  qed
qed

lemma roster_bound:
  assumes "distinct xs" and "set xs \<subseteq> set AGENT_DEFS"
  shows "length xs \<le> length AGENT_DEFS"
proof -
  have "length xs = card (set xs)"
    using assms(1) by (simp add: distinct_card)
  also have "\<dots> \<le> card (set AGENT_DEFS)"
    using assms(2) by (simp add: card_mono)
  also have "\<dots> \<le> length AGENT_DEFS"
    by (rule card_length)
  finally show ?thesis .
qed

lemma AGENT_DEFS_length: "length AGENT_DEFS = 4"
  by (simp add: AGENT_DEFS_def)

lemma onmessage_old_entry:
  assumes "i < length (agents s)"
  shows "name (agents (onmessage s e) ! i) = name (agents s ! i)"
    and "(\<forall>agent. e \<noteq> E_agent_error agent) \<longrightarrow>
           status (agents (onmessage s e) ! i) = status (agents s ! i)
         \<or> (status (agents s ! i) = S_working \<and> status (agents (onmessage s e) ! i) = S_complete)"
    and "e = E_agent_error agent \<and> name (agents s ! i) = agent \<and> status (agents s ! i) = S_working
           \<longrightarrow> status (agents (onmessage s e) ! i) = S_error"
    and "e = E_agent_error agent \<and> name (agents s ! i) \<noteq> agent
           \<longrightarrow> status (agents (onmessage s e) ! i) = status (agents s ! i)"
  using assms by (cases e; simp add: nth_append)+

lemma onmessage_new_entry:
  assumes "length (agents s) \<le> i" and "i < length (agents (onmessage s e))"
  shows "status (agents (onmessage s e) ! i) = S_working"
  using assms by (cases e) (simp_all add: nth_append)

text \<open>
  C4, as amended. \<open>agents\<close> grows by exactly one entry for each \<^verbatim>\<open>agent_start\<close> event that
  is dispatched, an entry with the event's name and the status working appended at the end,
  and by nothing else: its length is the length it had plus the number of start events
  handled. So in a started session it holds at most four entries when the stream starts
  distinct names of the roster. No dispatch removes or renames an entry; an entry enters as
  working; an event other than \<^verbatim>\<open>agent_error\<close> leaves a status as it is or takes it from
  working to complete; \<^verbatim>\<open>agent_error\<close> leaves the entries of other names as they are and
  takes a working entry nowhere but to error.
\<close>

theorem agents_length_and_status_path:
  "(started s s0 \<and> distinct (startedNames evs) \<and> set (startedNames evs) \<subseteq> set AGENT_DEFS
      \<longrightarrow> length (agents (run s0 evs)) \<le> 4)
   \<and> length (agents (run t evs)) \<le> length (agents t) + length (startedNames evs)
   \<and> length (agents t) \<le> length (agents (deliver t e))
   \<and> length (agents (run t evs)) =
       length (agents t) + length (startedNames (handled t evs))
   \<and> (es t \<noteq> None \<longrightarrow>
        agents (deliver t (E_agent_start agent pay alloc)) =
          agents t @ [\<lparr>name = agent, key = [], status = S_working, payment = pay, txId = [],
                       allocation = alloc\<rparr>])
   \<and> ((\<forall>a p c. e \<noteq> E_agent_start a p c) \<longrightarrow>
        length (agents (deliver t e)) = length (agents t))
   \<and> (\<forall>i<length (agents (deliver t e)).
        if i < length (agents t)
        then name (agents (deliver t e) ! i) = name (agents t ! i)
           \<and> ((\<forall>agent. e \<noteq> E_agent_error agent) \<longrightarrow>
                 status (agents (deliver t e) ! i) = status (agents t ! i)
               \<or> (status (agents t ! i) = S_working
                   \<and> status (agents (deliver t e) ! i) = S_complete))
           \<and> (\<forall>agent. e = E_agent_error agent \<and> name (agents t ! i) \<noteq> agent \<longrightarrow>
                 status (agents (deliver t e) ! i) = status (agents t ! i))
           \<and> (\<forall>agent. e = E_agent_error agent \<and> status (agents t ! i) = S_working \<longrightarrow>
                 status (agents (deliver t e) ! i) = S_working
               \<or> status (agents (deliver t e) ! i) = S_error)
        else status (agents (deliver t e) ! i) = S_working)"
proof (intro conjI impI allI)
  assume a: "started s s0 \<and> distinct (startedNames evs) \<and> set (startedNames evs) \<subseteq> set AGENT_DEFS"
  then have "agents s0 = []"
    using started_fields(2) [of s s0] by simp
  then have "length (agents (run s0 evs)) \<le> length (startedNames evs)"
    using run_agents_length [of s0 evs] by simp
  also have "\<dots> \<le> length AGENT_DEFS"
    using a by (simp add: roster_bound)
  finally show "length (agents (run s0 evs)) \<le> 4"
    by (simp add: AGENT_DEFS_length)
next
  show "length (agents (run t evs)) \<le> length (agents t) + length (startedNames evs)"
    by (rule run_agents_length)
  show "length (agents t) \<le> length (agents (deliver t e))"
    by (rule deliver_agents_grow)
  show "length (agents (run t evs)) =
       length (agents t) + length (startedNames (handled t evs))"
    by (rule run_agents_length_eq)
next
  assume "es t \<noteq> None"
  then show "agents (deliver t (E_agent_start agent pay alloc)) =
          agents t @ [\<lparr>name = agent, key = [], status = S_working, payment = pay, txId = [],
                       allocation = alloc\<rparr>]"
    by (auto simp: deliver_def)
next
  assume "\<forall>a p c. e \<noteq> E_agent_start a p c"
  then show "length (agents (deliver t e)) = length (agents t)"
    by (cases e) (auto simp: deliver_def)
next
  fix i assume i: "i < length (agents (deliver t e))"
  show "if i < length (agents t)
        then name (agents (deliver t e) ! i) = name (agents t ! i)
           \<and> ((\<forall>agent. e \<noteq> E_agent_error agent) \<longrightarrow>
                 status (agents (deliver t e) ! i) = status (agents t ! i)
               \<or> (status (agents t ! i) = S_working
                   \<and> status (agents (deliver t e) ! i) = S_complete))
           \<and> (\<forall>agent. e = E_agent_error agent \<and> name (agents t ! i) \<noteq> agent \<longrightarrow>
                 status (agents (deliver t e) ! i) = status (agents t ! i))
           \<and> (\<forall>agent. e = E_agent_error agent \<and> status (agents t ! i) = S_working \<longrightarrow>
                 status (agents (deliver t e) ! i) = S_working
               \<or> status (agents (deliver t e) ! i) = S_error)
        else status (agents (deliver t e) ! i) = S_working"
  proof (cases "es t = None")
    case True
    with i show ?thesis by (simp add: deliver_closed)
  next
    case False
    then have d: "deliver t e = onmessage t e"
      by (rule deliver_open)
    show ?thesis
    proof (cases "i < length (agents t)")
      case True
      have "\<forall>agent. e = E_agent_error agent \<and> status (agents t ! i) = S_working \<longrightarrow>
                 status (agents (onmessage t e) ! i) = S_working
               \<or> status (agents (onmessage t e) ! i) = S_error"
        using onmessage_old_entry(3,4) [OF True, of e] by metis
      with True show ?thesis
        unfolding d using onmessage_old_entry(1,2,4) [OF True, of e] by simp
    next
      case False
      with i show ?thesis
        unfolding d by (simp add: onmessage_new_entry)
    qed
  qed
qed

theorem agents_length_and_status_path_witness:
  "started (initial exampleUrl) exampleSession
   \<and> distinct (startedNames scenarioA)
   \<and> set (startedNames scenarioA) \<subseteq> set AGENT_DEFS
   \<and> length (agents (run exampleSession scenarioA)) \<le> 4
   \<and> map status (agents (run exampleSession (take 6 scenarioA))) =
        [S_working, S_working, S_working, S_working]
   \<and> map status (agents (run exampleSession (take 7 scenarioA))) =
        [S_complete, S_working, S_working, S_working]
   \<and> length (startedNames (handled exampleSession scenarioA)) = 4
   \<and> length (agents (run exampleSession scenarioA)) = 4
   \<and> agents (deliver exampleSession (E_agent_start (lit ''Insight Agent'') 0.32 22)) =
       [\<lparr>name = lit ''Insight Agent'', key = [], status = S_working, payment = 0.32,
         txId = [], allocation = 22\<rparr>]"
  (is "?S \<and> ?D \<and> ?R \<and> ?L \<and> ?M6 \<and> ?M7 \<and> ?H \<and> ?E \<and> ?N")
proof -
  have o: "es exampleSession \<noteq> None" and n: "agents exampleSession = []"
    using exampleSession_started by (rule started_fields)+
  have h: ?H
    by code_simp
  from agents_length_and_status_path [where t = exampleSession and evs = scenarioA]
  have "length (agents (run exampleSession scenarioA)) =
        length (agents exampleSession) + length (startedNames (handled exampleSession scenarioA))"
    by blast
  with n h have e: ?E
    by simp
  from agents_length_and_status_path
    [where t = exampleSession and agent = "lit ''Insight Agent''" and pay = "0.32"
       and alloc = 22] o
  have "agents (deliver exampleSession (E_agent_start (lit ''Insight Agent'') 0.32 22)) =
        agents exampleSession @
          [\<lparr>name = lit ''Insight Agent'', key = [], status = S_working, payment = 0.32,
            txId = [], allocation = 22\<rparr>]"
    by blast
  with n have nw: ?N
    by simp
  have a: "distinct (startedNames scenarioA)" "set (startedNames scenarioA) \<subseteq> set AGENT_DEFS"
    by code_simp+
  have b: "map status (agents (run exampleSession (take 6 scenarioA))) =
        [S_working, S_working, S_working, S_working]"
    "map status (agents (run exampleSession (take 7 scenarioA))) =
        [S_complete, S_working, S_working, S_working]"
    by code_simp+
  from agents_length_and_status_path [of "initial exampleUrl" exampleSession scenarioA]
    exampleSession_started a
  have "length (agents (run exampleSession scenarioA)) \<le> 4"
    by blast
  with exampleSession_started a b h e nw show ?thesis by blast
qed

text \<open>
  Five start events, each naming an agent of the roster, leave five entries; and a failure
  event after the completion takes an entry from complete to error.
\<close>

theorem agents_exceed_roster:
  "length (agents (run exampleSession
      [E_agent_start (lit ''Code Reader Agent'') 0.45 30,
       E_agent_start (lit ''Simplifier Agent'') 0.35 23,
       E_agent_start (lit ''Analogy Agent'') 0.38 25,
       E_agent_start (lit ''Insight Agent'') 0.32 22,
       E_agent_start (lit ''Insight Agent'') 0.32 22])) = 5
   \<and> map status (agents (run exampleSession
      [E_agent_start (lit ''Insight Agent'') 0.32 22,
       E_agent_complete (lit ''Insight Agent'') (lit ''tx4'') 0.32 0 (lit ''insight'') JNull])) =
       [S_complete]
   \<and> map status (agents (run exampleSession
      [E_agent_start (lit ''Insight Agent'') 0.32 22,
       E_agent_complete (lit ''Insight Agent'') (lit ''tx4'') 0.32 0 (lit ''insight'') JNull,
       E_agent_error (lit ''Insight Agent'')])) =
       [S_error]"
  by code_simp

lemma onmessage_remainingBudget:
  "remainingBudget (onmessage s e) =
     (case completionBudgets [e] of [] \<Rightarrow> remainingBudget s | b # bs \<Rightarrow> b)"
  by (cases e) simp_all

lemma completionBudgets_Cons:
  "completionBudgets (e # evs) = completionBudgets [e] @ completionBudgets evs"
  by (cases e) simp_all

lemma completionBudgets_single: "length (completionBudgets [e]) \<le> 1"
  by (cases e) simp_all

lemma deliver_remainingBudget:
  "remainingBudget (deliver s e) = remainingBudget s
   \<or> completionBudgets [e] = [remainingBudget (deliver s e)]"
  by (cases e) (simp_all add: deliver_def)

lemma completionBudgets_append:
  "completionBudgets (xs @ ys) = completionBudgets xs @ completionBudgets ys"
proof (induction xs)
  case Nil
  show ?case by simp
next
  case (Cons e xs)
  then show ?case
    using completionBudgets_Cons [of e "xs @ ys"] completionBudgets_Cons [of e xs] by simp
qed

lemma run_remainingBudget_mem:
  "remainingBudget (run s evs) \<in> set (remainingBudget s # completionBudgets evs)"
proof (induction evs arbitrary: s)
  case Nil
  show ?case by simp
next
  case (Cons e evs)
  have "remainingBudget (run (deliver s e) evs) \<in>
        set (remainingBudget (deliver s e) # completionBudgets evs)"
    by (rule Cons.IH)
  moreover have "remainingBudget (deliver s e) \<in> set (remainingBudget s # completionBudgets [e])"
    using deliver_remainingBudget [of s e] by auto
  ultimately show ?case
    by (subst completionBudgets_Cons) auto
qed

text \<open>Along a stream whose budgets never rise, every later budget is below the current one.\<close>

lemma run_remainingBudget_bound:
  assumes "sorted_wrt (\<ge>) (remainingBudget s # completionBudgets (pre @ post))"
    and "b \<in> set (completionBudgets post)"
  shows "b \<le> remainingBudget (run s pre)"
proof -
  have m: "remainingBudget (run s pre) \<in> set (remainingBudget s # completionBudgets pre)"
    by (rule run_remainingBudget_mem)
  from assms(1) have "\<forall>x\<in>set (remainingBudget s # completionBudgets pre).
      \<forall>y\<in>set (completionBudgets post). y \<le> x"
    by (auto simp: completionBudgets_append sorted_wrt_append)
  with m assms(2) show ?thesis by blast
qed

text \<open>
  C5, as amended. An \<^verbatim>\<open>agent_complete\<close> event overwrites \<open>remainingBudget\<close> with the value
  it carries. Hence, along a stream whose completion events carry values that never rise,
  starting at or below the session's budget and never negative, \<open>remainingBudget\<close> never
  rises from one dispatch to the next and is never negative.
\<close>

theorem remainingBudget_follows_stream:
  "remainingBudget (onmessage s (E_agent_complete agent tx pay remaining k result)) = remaining
   \<and> (sorted_wrt (\<ge>) (remainingBudget s # completionBudgets (pre @ e # post))
        \<and> (\<forall>b\<in>set (remainingBudget s # completionBudgets (pre @ e # post)). 0 \<le> b)
      \<longrightarrow> remainingBudget (run s (pre @ [e])) \<le> remainingBudget (run s pre)
          \<and> 0 \<le> remainingBudget (run s (pre @ [e]))
          \<and> 0 \<le> remainingBudget (run s pre))"
proof (intro conjI impI)
  show "remainingBudget (onmessage s (E_agent_complete agent tx pay remaining k result)) = remaining"
    by simp
next
  assume a: "sorted_wrt (\<ge>) (remainingBudget s # completionBudgets (pre @ e # post))
        \<and> (\<forall>b\<in>set (remainingBudget s # completionBudgets (pre @ e # post)). 0 \<le> b)"
  have step: "remainingBudget (deliver (run s pre) e) = remainingBudget (run s pre)
     \<or> completionBudgets [e] = [remainingBudget (deliver (run s pre) e)]"
    by (rule deliver_remainingBudget)
  have sub: "set (completionBudgets [e]) \<subseteq> set (completionBudgets (e # post))"
    by (subst (2) completionBudgets_Cons) simp
  show "remainingBudget (run s (pre @ [e])) \<le> remainingBudget (run s pre)"
  proof (cases "remainingBudget (deliver (run s pre) e) = remainingBudget (run s pre)")
    case True
    then show ?thesis by (simp add: run_snoc)
  next
    case False
    with step have "remainingBudget (deliver (run s pre) e) \<in> set (completionBudgets [e])"
      by auto
    with sub have "remainingBudget (deliver (run s pre) e) \<in> set (completionBudgets (e # post))"
      by blast
    with a show ?thesis
      using run_remainingBudget_bound [of s pre "e # post"] by (simp add: run_snoc)
  qed
  have "remainingBudget (run s xs) \<in> set (remainingBudget s # completionBudgets (pre @ e # post))"
    if "xs = pre \<or> xs = pre @ [e]" for xs
  proof -
    have "set (completionBudgets xs) \<subseteq> set (completionBudgets (pre @ e # post))"
      using that sub by (auto simp: completionBudgets_append
          completionBudgets_Cons [of e post])
    then show ?thesis
      using run_remainingBudget_mem [of s xs] by auto
  qed
  with a show "0 \<le> remainingBudget (run s (pre @ [e]))" "0 \<le> remainingBudget (run s pre)"
    by blast+
qed

theorem remainingBudget_follows_stream_witness:
  "sorted_wrt (\<ge>) (remainingBudget exampleSession # completionBudgets scenarioA)
   \<and> list_all (\<lambda>b. 0 \<le> b) (remainingBudget exampleSession # completionBudgets scenarioA)
   \<and> remainingBudget (run exampleSession (take 7 scenarioA @ [scenarioA ! 7])) \<le>
       remainingBudget (run exampleSession (take 7 scenarioA))
   \<and> remainingBudget (run exampleSession (take 7 scenarioA)) = 1.05
   \<and> remainingBudget (run exampleSession (take 7 scenarioA @ [scenarioA ! 7])) = 0.70"
  (is "?A \<and> ?B \<and> ?C \<and> ?D \<and> ?E")
proof -
  have a: ?A and b: ?B and d: ?D and e: ?E
    by code_simp+
  have sp: "scenarioA = take 7 scenarioA @ (scenarioA ! 7) # drop 8 scenarioA"
    by (simp add: scenarioA_def)
  from b have b': "\<forall>b\<in>set (remainingBudget exampleSession #
      completionBudgets (take 7 scenarioA @ (scenarioA ! 7) # drop 8 scenarioA)). 0 \<le> b"
    unfolding sp [symmetric] by (simp add: list_all_iff)
  from a have a': "sorted_wrt (\<ge>) (remainingBudget exampleSession #
      completionBudgets (take 7 scenarioA @ (scenarioA ! 7) # drop 8 scenarioA))"
    unfolding sp [symmetric] .
  from remainingBudget_follows_stream
    [of exampleSession _ _ _ _ _ _ "take 7 scenarioA" "scenarioA ! 7" "drop 8 scenarioA"] a' b'
  have ?C by blast
  with a b d e show ?thesis by blast
qed

text \<open>
  The handler stores whatever the stream carries: a larger value after a smaller one, or a
  negative one.
\<close>

theorem remainingBudget_can_rise:
  "remainingBudget (run exampleSession
      [E_agent_complete (lit ''Insight Agent'') (lit ''tx1'') 0.32 1 (lit ''insight'') JNull]) <
   remainingBudget (run exampleSession
      [E_agent_complete (lit ''Insight Agent'') (lit ''tx1'') 0.32 1 (lit ''insight'') JNull,
       E_agent_complete (lit ''Analogy Agent'') (lit ''tx2'') 0.38 2 (lit ''analogy'') JNull])
   \<and> remainingBudget (run exampleSession
      [E_agent_complete (lit ''Insight Agent'') (lit ''tx1'') 0.32 (- 1) (lit ''insight'') JNull]) < 0"
  by code_simp

lemma onmessage_keeps_open:
  assumes "\<not> isRefund e" and "\<forall>m. e \<noteq> E_error m"
  shows "es (onmessage s e) = es s"
    and "phase s \<noteq> Complete \<Longrightarrow> phase (onmessage s e) \<noteq> Complete"
  using assms by (cases e; simp)+

lemma onmessage_error_closes:
  "es (onmessage s (E_error m)) = None" "phase (onmessage s (E_error m)) = Idle"
  by simp_all

lemma onmessage_refund_closes: "isRefund e \<Longrightarrow> es (onmessage s e) = None"
  by (cases e) simp_all

lemma handled_refund_once: "length (filter isRefund (handled s evs)) \<le> 1"
proof (induction evs arbitrary: s)
  case Nil
  show ?case by simp
next
  case (Cons e evs)
  show ?case
  proof (cases "es s \<noteq> None \<and> isRefund e")
    case True
    then have "es (onmessage s e) = None"
      by (simp add: onmessage_refund_closes)
    then have "handled (onmessage s e) evs = []"
      by (cases evs) simp_all
    with True show ?thesis by simp
  next
    case False
    then show ?thesis using Cons.IH [of "onmessage s e"] by auto
  qed
qed

lemma complete_by_refund:
  assumes "es s \<noteq> None" and "phase s \<noteq> Complete" and "phase (run s evs) = Complete"
  shows "\<exists>pre amount tx post. evs = pre @ E_refund amount tx # post
           \<and> es (run s pre) \<noteq> None
           \<and> run s evs = onmessage (run s pre) (E_refund amount tx)"
  using assms
proof (induction evs arbitrary: s)
  case Nil
  then show ?case by simp
next
  case (Cons e evs)
  have d: "deliver s e = onmessage s e"
    using Cons.prems(1) by (rule deliver_open)
  show ?case
  proof (cases "isRefund e")
    case True
    then obtain amount tx where e: "e = E_refund amount tx"
      by (cases e) simp_all
    have "run s (e # evs) = onmessage s e"
      using True by (simp add: d run_closed onmessage_refund_closes)
    then have "e # evs = [] @ E_refund amount tx # evs \<and> es (run s []) \<noteq> None
           \<and> run s (e # evs) = onmessage (run s []) (E_refund amount tx)"
      using Cons.prems(1) e by simp
    then show ?thesis by blast
  next
    case False
    show ?thesis
    proof (cases "\<exists>m. e = E_error m")
      case True
      then obtain m where m: "e = E_error m" ..
      have "run s (e # evs) = onmessage s (E_error m)"
        using d unfolding m by (simp add: run_closed)
      with Cons.prems(3) show ?thesis by simp
    next
      case False
      with \<open>\<not> isRefund e\<close> have o: "es (onmessage s e) \<noteq> None"
        and p: "phase (onmessage s e) \<noteq> Complete"
        using Cons.prems(1,2) by (simp_all add: onmessage_keeps_open)
      from Cons.prems(3) have "phase (run (onmessage s e) evs) = Complete"
        by (simp add: d)
      from Cons.IH [OF o p this] obtain pre amount tx post where
        "evs = pre @ E_refund amount tx # post" "es (run (onmessage s e) pre) \<noteq> None"
        "run (onmessage s e) evs = onmessage (run (onmessage s e) pre) (E_refund amount tx)"
        by blast
      then have "e # evs = (e # pre) @ E_refund amount tx # post
           \<and> es (run s (e # pre)) \<noteq> None
           \<and> run s (e # evs) = onmessage (run s (e # pre)) (E_refund amount tx)"
        by (simp add: d)
      then show ?thesis by blast
    qed
  qed
qed

text \<open>
  C6, as amended. At most one \<^verbatim>\<open>refund\<close> event of a stream reaches the handler, and after it
  no frame changes the session: the refund is set at most once. In a started session the
  refund is shown only in phase complete with the subscription closed, and the session is
  then exactly as the refund event left it: the refund is that event's, and \<open>agents\<close> is
  as it stood when the event arrived.
\<close>

theorem refund_once_and_shown:
  "length (filter isRefund (handled t evs)) \<le> 1
   \<and> run (onmessage t (E_refund amount tx)) evs = onmessage t (E_refund amount tx)
   \<and> (started s s0 \<and> refundShown (run s0 evs)
      \<longrightarrow> phase (run s0 evs) = Complete \<and> es (run s0 evs) = None
          \<and> (\<exists>pre a x post. evs = pre @ E_refund a x # post
                \<and> run s0 evs = onmessage (run s0 pre) (E_refund a x)
                \<and> refundAmount (run s0 evs) = a \<and> refundTxId (run s0 evs) = x
                \<and> agents (run s0 evs) = agents (run s0 pre)))"
proof (intro conjI impI)
  show "length (filter isRefund (handled t evs)) \<le> 1"
    by (rule handled_refund_once)
  show "run (onmessage t (E_refund amount tx)) evs = onmessage t (E_refund amount tx)"
    by (simp add: run_closed)
next
  assume a: "started s s0 \<and> refundShown (run s0 evs)"
  then show c: "phase (run s0 evs) = Complete"
    by (simp add: refundShown_def)
  from a have o: "es s0 \<noteq> None" and f: "phase s0 \<noteq> Complete"
    using started_fields(1,4) [of s s0] by simp_all
  from complete_by_refund [OF o f c] obtain pre a x post where
    r: "evs = pre @ E_refund a x # post" "run s0 evs = onmessage (run s0 pre) (E_refund a x)"
    by blast
  from r(2) show "es (run s0 evs) = None" by simp
  from r have "evs = pre @ E_refund a x # post
                \<and> run s0 evs = onmessage (run s0 pre) (E_refund a x)
                \<and> refundAmount (run s0 evs) = a \<and> refundTxId (run s0 evs) = x
                \<and> agents (run s0 evs) = agents (run s0 pre)"
    by simp
  then show "\<exists>pre a x post. evs = pre @ E_refund a x # post
                \<and> run s0 evs = onmessage (run s0 pre) (E_refund a x)
                \<and> refundAmount (run s0 evs) = a \<and> refundTxId (run s0 evs) = x
                \<and> agents (run s0 evs) = agents (run s0 pre)"
    by blast
qed

theorem refund_once_and_shown_witness:
  "started (initial exampleUrl) exampleSession
   \<and> refundShown (run exampleSession scenarioA)
   \<and> phase (run exampleSession scenarioA) = Complete
   \<and> es (run exampleSession scenarioA) = None
   \<and> refundAmount (run exampleSession scenarioA) = 0.10
   \<and> list_all terminal (agents (run exampleSession scenarioA))
   \<and> length (filter isRefund (handled exampleSession (scenarioA @ scenarioA))) = 1"
  (is "?S \<and> ?R \<and> ?P \<and> ?E \<and> ?A \<and> ?T \<and> ?L")
proof -
  have r: ?R and a: ?A and t: ?T and l: ?L
    by code_simp+
  from refund_once_and_shown
    [where s = "initial exampleUrl" and ?s0.0 = exampleSession and evs = scenarioA]
    exampleSession_started r
  have "?P \<and> ?E" by blast
  with exampleSession_started r a t l show ?thesis by blast
qed

text \<open>A refund that arrives while an agent is working is shown with that agent still working.\<close>

theorem refund_shown_while_working:
  "refundShown (run exampleSession
      [E_repo_fetched exampleMeta, E_agent_start (lit ''Insight Agent'') 0.32 22,
       E_refund 0.10 (lit ''tx5'')])
   \<and> map status (agents (run exampleSession
      [E_repo_fetched exampleMeta, E_agent_start (lit ''Insight Agent'') 0.32 22,
       E_refund 0.10 (lit ''tx5'')])) = [S_working]
   \<and> \<not> list_all terminal (agents (run exampleSession
      [E_repo_fetched exampleMeta, E_agent_start (lit ''Insight Agent'') 0.32 22,
       E_refund 0.10 (lit ''tx5'')]))"
  by code_simp

lemma open_phase:
  assumes "es s \<noteq> None \<longrightarrow> phase s = Fetching \<or> phase s = Analyzing"
  shows "es (run s evs) \<noteq> None \<longrightarrow> phase (run s evs) = Fetching \<or> phase (run s evs) = Analyzing"
  using assms
proof (induction evs arbitrary: s)
  case Nil
  then show ?case by simp
next
  case (Cons e evs)
  have "es (deliver s e) \<noteq> None \<longrightarrow> phase (deliver s e) = Fetching \<or> phase (deliver s e) = Analyzing"
    using Cons.prems by (cases e) (auto simp: deliver_def)
  from Cons.IH [OF this] show ?case by simp
qed

text \<open>
  C7, as amended. In a started session no dispatch moves the phase backward, except an
  \<^verbatim>\<open>error\<close> event, which sets it to idle, and a \<^verbatim>\<open>fetching_repo\<close> event that arrives in
  phase analyzing, which sets it back to fetching. While the subscription is open each of
  \<^verbatim>\<open>fetching_repo\<close>, \<^verbatim>\<open>repo_fetched\<close>, \<^verbatim>\<open>refund\<close> and \<^verbatim>\<open>error\<close> sets the phase of its
  own whatever the phase was; once it is closed nothing changes.
\<close>

theorem phase_under_dispatch:
  "started s s0 \<longrightarrow>
     ((\<forall>m. e \<noteq> E_error m) \<and> \<not> (e = E_fetching_repo \<and> phase (run s0 evs) = Analyzing)
        \<longrightarrow> phaseRank (phase (run s0 evs)) \<le> phaseRank (phase (deliver (run s0 evs) e)))
   \<and> (es (run s0 evs) \<noteq> None
        \<longrightarrow> phase (deliver (run s0 evs) (E_error m)) = Idle
          \<and> phase (deliver (run s0 evs) E_fetching_repo) = Fetching
          \<and> phase (deliver (run s0 evs) (E_repo_fetched meta)) = Analyzing
          \<and> phase (deliver (run s0 evs) (E_refund amount tx)) = Complete)
   \<and> (es (run s0 evs) = None \<longrightarrow> deliver (run s0 evs) e = run s0 evs)"
proof (intro impI conjI)
  assume st: "started s s0"
  then have "es s0 \<noteq> None \<longrightarrow> phase s0 = Fetching \<or> phase s0 = Analyzing"
    using started_fields(1) [of s s0] by simp
  then have inv: "es (run s0 evs) \<noteq> None \<longrightarrow>
      phase (run s0 evs) = Fetching \<or> phase (run s0 evs) = Analyzing"
    by (rule open_phase)
  {
    assume e: "(\<forall>m. e \<noteq> E_error m) \<and> \<not> (e = E_fetching_repo \<and> phase (run s0 evs) = Analyzing)"
    show "phaseRank (phase (run s0 evs)) \<le> phaseRank (phase (deliver (run s0 evs) e))"
    proof (cases "es (run s0 evs) = None")
      case True
      then show ?thesis by (simp add: deliver_closed)
    next
      case False
      with inv e show ?thesis
        by (cases e) (auto simp: deliver_def)
    qed
  }
  {
    assume o: "es (run s0 evs) \<noteq> None"
    then show "phase (deliver (run s0 evs) (E_error m)) = Idle"
      "phase (deliver (run s0 evs) E_fetching_repo) = Fetching"
      "phase (deliver (run s0 evs) (E_repo_fetched meta)) = Analyzing"
      "phase (deliver (run s0 evs) (E_refund amount tx)) = Complete"
      by (auto simp: deliver_def)
  }
  {
    assume "es (run s0 evs) = None"
    then show "deliver (run s0 evs) e = run s0 evs"
      by (rule deliver_closed)
  }
qed

theorem phase_under_dispatch_witness:
  "started (initial exampleUrl) exampleSession
   \<and> phase (run exampleSession [E_fetching_repo]) = Fetching
   \<and> phase (deliver (run exampleSession [E_fetching_repo]) (E_repo_fetched exampleMeta)) = Analyzing
   \<and> phaseRank (phase (run exampleSession [E_fetching_repo])) \<le>
       phaseRank (phase (deliver (run exampleSession [E_fetching_repo]) (E_repo_fetched exampleMeta)))
   \<and> phase (deliver (run exampleSession [E_fetching_repo]) (E_error (lit ''rate limited''))) = Idle
   \<and> deliver (run exampleSession scenarioA) E_fetching_repo = run exampleSession scenarioA"
  (is "?S \<and> ?A \<and> ?B \<and> ?C \<and> ?D \<and> ?E")
proof -
  have a: ?A and o: "es (run exampleSession [E_fetching_repo]) \<noteq> None"
    and c: "es (run exampleSession scenarioA) = None"
    by code_simp+
  have ne: "\<forall>m. E_repo_fetched exampleMeta \<noteq> E_error m"
    "\<not> (E_repo_fetched exampleMeta = E_fetching_repo
        \<and> phase (run exampleSession [E_fetching_repo]) = Analyzing)"
    by simp_all
  from phase_under_dispatch
    [of "initial exampleUrl" exampleSession "E_repo_fetched exampleMeta" "[E_fetching_repo]"
      "lit ''rate limited''" exampleMeta]
    exampleSession_started ne o
  have "?C \<and> ?D \<and> ?B" by blast
  moreover from phase_under_dispatch
    [of "initial exampleUrl" exampleSession E_fetching_repo scenarioA]
    exampleSession_started c
  have ?E by blast
  ultimately show ?thesis
    using exampleSession_started a by blast
qed

text \<open>A \<^verbatim>\<open>fetching_repo\<close> event after \<^verbatim>\<open>repo_fetched\<close> takes the phase from analyzing back to fetching.\<close>

theorem phase_moves_backward:
  "phase (run exampleSession [E_repo_fetched exampleMeta]) = Analyzing
   \<and> phase (deliver (run exampleSession [E_repo_fetched exampleMeta]) E_fetching_repo) = Fetching
   \<and> phaseRank (phase (deliver (run exampleSession [E_repo_fetched exampleMeta]) E_fetching_repo)) <
       phaseRank (phase (run exampleSession [E_repo_fetched exampleMeta]))"
  by code_simp

end
